theory Spec2Isabelle
  imports Main "HOL-Library.Multiset"
begin

section \<open>The standings scoring engine of \<^verbatim>\<open>src/worker/worker.js\<close>\<close>

text \<open>
  The development embeds \<^verbatim>\<open>computeStandings(season, contestants, picks)\<close>
  (worker.js, lines 199--315). Conventions of the embedding:
  \<^item> JavaScript numbers are modelled as \<^typ>\<open>int\<close>: placements, roster sizes, bonus
    counts and the configured point values are integers in the data the engine reads;
  \<^item> \<^verbatim>\<open>undefined\<close>/\<^verbatim>\<open>null\<close> is \<open>None\<close>: a contestant that
    \<^verbatim>\<open>contestantMap.get\<close> does not find, a missing \<^verbatim>\<open>placement\<close>, a missing
    \<^verbatim>\<open>bonuses\<close> object, a missing \<^verbatim>\<open>alternates\<close> array, a key that the
    \<^verbatim>\<open>scoring\<close> object does not own;
  \<^item> a number is truthy iff it is not \<open>0\<close>;
  \<^item> the index sentinels \<^verbatim>\<open>-1\<close> are kept, so indices are \<^typ>\<open>int\<close>;
  \<^item> \<^verbatim>\<open>Infinity\<close>, the start value of \<^verbatim>\<open>worstPts\<close>, is \<open>None\<close> of
    \<^typ>\<open>int option\<close>.
\<close>

subsection \<open>Data model\<close>

text \<open>A roster member: \<^verbatim>\<open>{ name, placement, bonuses }\<close>. The bonus tally is the list
  that \<^verbatim>\<open>Object.entries(c.bonuses)\<close> enumerates.\<close>

record contestant =
  name :: string
  placement :: "int option"
  bonuses :: "(string \<times> int) list option"

text \<open>The two fields of the season that the engine destructures.\<close>

record season =
  contestantCount :: int
  scoring :: "string \<rightharpoonup> int"

text \<open>A pick submission: \<^verbatim>\<open>{ name, picks, alternates? }\<close>.\<close>

record submission =
  sub_name :: string
  picks :: "string list"
  alternates :: "string list option"

text \<open>The objects built for \<^verbatim>\<open>finalPicks\<close> and \<^verbatim>\<open>activeAlts\<close>.\<close>

record scored_pick =
  pk_contestant :: "contestant option"
  pk_placement :: int
  pk_bonus :: int
  pk_total :: int
  swappedOut :: bool

record scored_alt =
  alt_contestant :: "contestant option"
  alt_placement :: int
  alt_bonus :: int
  alt_total :: int
  swappedIn :: bool

text \<open>The object returned for one player.\<close>

record standing =
  st_name :: string
  st_picks :: "scored_pick list"
  st_alternates :: "scored_alt list"
  winnerBonus :: int
  runnerUpBonus :: int
  st_total :: int

subsection \<open>Points calculator\<close>

text \<open>\<^verbatim>\<open>for (const c of contestants) contestantMap.set(c.name, c)\<close>: a later
  contestant of the same name replaces an earlier one.\<close>

definition contestantMap :: "contestant list \<Rightarrow> (string \<rightharpoonup> contestant)" where
  "contestantMap contestants = foldl (\<lambda>m c. m(name c \<mapsto> c)) Map.empty contestants"

definition placementPts :: "season \<Rightarrow> contestant option \<Rightarrow> int" where
  "placementPts s c =
     (case c of
        None \<Rightarrow> 0
      | Some c' \<Rightarrow>
          (case placement c' of
             None \<Rightarrow> 0
           | Some p \<Rightarrow> contestantCount s + 1 - p))"

text \<open>One turn of the loop over \<^verbatim>\<open>Object.entries(c.bonuses)\<close>.\<close>

definition bonusStep :: "season \<Rightarrow> int \<Rightarrow> string \<times> int \<Rightarrow> int" where
  "bonusStep s tot kc =
     (case kc of (key, cnt) \<Rightarrow>
        (case scoring s key of
           None \<Rightarrow> tot
         | Some v \<Rightarrow> if v \<noteq> 0 then tot + cnt * v else tot))"

definition bonusPts :: "season \<Rightarrow> contestant option \<Rightarrow> int" where
  "bonusPts s c =
     (case c of
        None \<Rightarrow> 0
      | Some c' \<Rightarrow>
          (case bonuses c' of
             None \<Rightarrow> 0
           | Some entries \<Rightarrow> foldl (bonusStep s) 0 entries))"

definition totalPts :: "season \<Rightarrow> contestant option \<Rightarrow> int" where
  "totalPts s c = placementPts s c + bonusPts s c"

subsection \<open>Swap selector\<close>

text \<open>\<^verbatim>\<open>player.picks.map(name => contestantMap.get(name))\<close> and
  \<^verbatim>\<open>(player.alternates || []).map(name => contestantMap.get(name))\<close>. In the
  functions below \<open>pcs\<close> and \<open>acs\<close> stand for these two arrays.\<close>

definition pickContestants :: "(string \<rightharpoonup> contestant) \<Rightarrow> submission \<Rightarrow> contestant option list" where
  "pickContestants cmap player = map cmap (picks player)"

definition altContestants :: "(string \<rightharpoonup> contestant) \<Rightarrow> submission \<Rightarrow> contestant option list" where
  "altContestants cmap player =
     map cmap (case alternates player of None \<Rightarrow> [] | Some as \<Rightarrow> as)"

text \<open>\<^verbatim>\<open>c && c.placement != null\<close>.\<close>

definition eliminated :: "contestant option \<Rightarrow> bool" where
  "eliminated c = (case c of None \<Rightarrow> False | Some c' \<Rightarrow> placement c' \<noteq> None)"

text \<open>\<^verbatim>\<open>pp < worstPts\<close>, where \<^verbatim>\<open>worstPts\<close> starts as \<^verbatim>\<open>Infinity\<close>.\<close>

definition belowWorst :: "int \<Rightarrow> int option \<Rightarrow> bool" where
  "belowWorst pp worstPts = (case worstPts of None \<Rightarrow> True | Some w \<Rightarrow> pp < w)"

text \<open>The loop \<^verbatim>\<open>for (let i = 0; i < pickContestants.length; i++)\<close> over the picks
  that remain, with the loop variables \<^verbatim>\<open>(worstIdx, worstPts)\<close>.\<close>

fun worstLoop ::
  "season \<Rightarrow> contestant option list \<Rightarrow> int \<Rightarrow> int \<times> int option \<Rightarrow> int \<times> int option" where
  "worstLoop s [] i st = st"
| "worstLoop s (c # cs) i (worstIdx, worstPts) =
     (let pp = placementPts s c in
      if eliminated c \<and> belowWorst pp worstPts
      then worstLoop s cs (i + 1) (i, Some pp)
      else worstLoop s cs (i + 1) (worstIdx, worstPts))"

text \<open>Reading an array: an index out of range gives \<^verbatim>\<open>undefined\<close>.\<close>

definition js_nth :: "'a option list \<Rightarrow> int \<Rightarrow> 'a option" where
  "js_nth xs i = (if 0 \<le> i \<and> i < int (length xs) then xs ! nat i else None)"

text \<open>The loop over the alternates that remain; it returns
  \<^verbatim>\<open>(swapIndex, swapAltIndex)\<close> and stops at the \<^verbatim>\<open>break\<close>.\<close>

fun altLoop ::
  "season \<Rightarrow> contestant option list \<Rightarrow> int \<Rightarrow> contestant option list \<Rightarrow> int \<Rightarrow> int \<times> int" where
  "altLoop s pcs worstIdx [] a = (- 1, - 1)"
| "altLoop s pcs worstIdx (alt # rest) a =
     (if totalPts s alt > totalPts s (js_nth pcs worstIdx)
      then (worstIdx, a)
      else altLoop s pcs worstIdx rest (a + 1))"

definition findSwap ::
  "season \<Rightarrow> contestant option list \<Rightarrow> contestant option list \<Rightarrow> int \<times> int" where
  "findSwap s pcs acs =
     (if length acs > 0
      then (case worstLoop s pcs 0 (- 1, None) of
              (worstIdx, worstPts) \<Rightarrow>
                if worstIdx \<noteq> - 1
                then altLoop s pcs worstIdx acs 0
                else (- 1, - 1))
      else (- 1, - 1))"

subsection \<open>Scored picks, totals and bonuses of one player\<close>

definition finalPicks :: "season \<Rightarrow> contestant option list \<Rightarrow> int \<Rightarrow> scored_pick list" where
  "finalPicks s pcs swapIndex =
     map (\<lambda>(i, c). \<lparr>pk_contestant = c, pk_placement = placementPts s c,
                    pk_bonus = bonusPts s c, pk_total = totalPts s c,
                    swappedOut = (int i = swapIndex)\<rparr>)
         (enumerate 0 pcs)"

definition activeAlts :: "season \<Rightarrow> contestant option list \<Rightarrow> int \<Rightarrow> scored_alt list" where
  "activeAlts s acs swapAltIndex =
     map (\<lambda>(a, c). \<lparr>alt_contestant = c, alt_placement = placementPts s c,
                    alt_bonus = bonusPts s c, alt_total = totalPts s c,
                    swappedIn = (int a = swapAltIndex)\<rparr>)
         (enumerate 0 acs)"

text \<open>The two summing loops (\<^verbatim>\<open>continue\<close> on a swapped-out pick).\<close>

definition sumActive :: "scored_pick list \<Rightarrow> scored_alt list \<Rightarrow> int" where
  "sumActive fps alts =
     foldl (\<lambda>t alt. if swappedIn alt then t + alt_total alt else t)
       (foldl (\<lambda>t p. if swappedOut p then t else t + pk_total p) 0 fps)
       alts"

definition activePicks :: "scored_pick list \<Rightarrow> scored_alt list \<Rightarrow> contestant option list" where
  "activePicks fps alts =
     map pk_contestant (filter (\<lambda>p. \<not> swappedOut p) fps) @
     map alt_contestant (filter (\<lambda>a. swappedIn a) alts)"

text \<open>One turn of \<^verbatim>\<open>for (const c of activePicks)\<close> on
  \<^verbatim>\<open>(winnerBonusPts, runnerUpBonusPts)\<close>.\<close>

definition bonusAwardStep :: "season \<Rightarrow> int \<times> int \<Rightarrow> contestant option \<Rightarrow> int \<times> int" where
  "bonusAwardStep s wr c =
     (case wr of (w, r) \<Rightarrow>
        (case c of
           None \<Rightarrow> (w, r)
         | Some c' \<Rightarrow>
             (let w' = (case scoring s ''winnerBonus'' of
                          Some wb \<Rightarrow> if placement c' = Some 1 \<and> wb \<noteq> 0 then wb else w
                        | None \<Rightarrow> w);
                  r' = (case scoring s ''runnerUpBonus'' of
                          Some rb \<Rightarrow> if placement c' = Some 2 \<and> rb \<noteq> 0 then rb else r
                        | None \<Rightarrow> r)
              in (w', r'))))"

definition awardBonuses :: "season \<Rightarrow> contestant option list \<Rightarrow> int \<times> int" where
  "awardBonuses s active = foldl (bonusAwardStep s) (0, 0) active"

text \<open>The body of \<^verbatim>\<open>picks.map(player => ...)\<close>.\<close>

definition scorePlayer :: "season \<Rightarrow> (string \<rightharpoonup> contestant) \<Rightarrow> submission \<Rightarrow> standing" where
  "scorePlayer s cmap player =
     (let pcs = pickContestants cmap player;
          acs = altContestants cmap player
      in case findSwap s pcs acs of
           (swapIndex, swapAltIndex) \<Rightarrow>
             (let fps = finalPicks s pcs swapIndex;
                  alts = activeAlts s acs swapAltIndex;
                  totalPoints = sumActive fps alts
              in case awardBonuses s (activePicks fps alts) of
                   (winnerBonusPts, runnerUpBonusPts) \<Rightarrow>
                     \<lparr>st_name = sub_name player, st_picks = fps, st_alternates = alts,
                      winnerBonus = winnerBonusPts, runnerUpBonus = runnerUpBonusPts,
                      st_total = totalPoints + (winnerBonusPts + runnerUpBonusPts)\<rparr>))"

subsection \<open>Ranking\<close>

text \<open>\<^verbatim>\<open>Array.prototype.sort(compare)\<close> is a built-in of the language; ECMAScript
  (2019 and later) specifies it as a stable sort by the comparator: \<open>a\<close> stays before \<open>b\<close>
  unless \<open>compare a b > 0\<close>. It is modelled as the stable insertion sort.\<close>

fun js_insert :: "('a \<Rightarrow> 'a \<Rightarrow> int) \<Rightarrow> 'a \<Rightarrow> 'a list \<Rightarrow> 'a list" where
  "js_insert compare x [] = [x]"
| "js_insert compare x (y # ys) =
     (if compare x y \<le> 0 then x # y # ys else y # js_insert compare x ys)"

definition js_sort :: "('a \<Rightarrow> 'a \<Rightarrow> int) \<Rightarrow> 'a list \<Rightarrow> 'a list" where
  "js_sort compare xs = foldr (js_insert compare) xs []"

definition computeStandings :: "season \<Rightarrow> contestant list \<Rightarrow> submission list \<Rightarrow> standing list" where
  "computeStandings s contestants subs =
     js_sort (\<lambda>a b. st_total b - st_total a) (map (scorePlayer s (contestantMap contestants)) subs)"

subsection \<open>The swap rule in the words of the specification\<close>

text \<open>The swap target: an eliminated pick whose placement points are the lowest among the
  eliminated picks, the earliest such pick in submission order.\<close>

definition is_swap_target :: "season \<Rightarrow> contestant option list \<Rightarrow> nat \<Rightarrow> bool" where
  "is_swap_target s pcs t \<longleftrightarrow>
     t < length pcs \<and> eliminated (pcs ! t) \<and>
     (\<forall>j \<in> set [0..<length pcs].
        eliminated (pcs ! j) \<longrightarrow>
          placementPts s (pcs ! t) < placementPts s (pcs ! j) \<or>
          (placementPts s (pcs ! t) = placementPts s (pcs ! j) \<and> t \<le> j))"

text \<open>The replacement: the first alternate, in submission order, whose total strictly
  exceeds the total of the target.\<close>

definition is_first_better_alt :: "season \<Rightarrow> int \<Rightarrow> contestant option list \<Rightarrow> nat \<Rightarrow> bool" where
  "is_first_better_alt s targetTotal acs a \<longleftrightarrow>
     a < length acs \<and> totalPts s (acs ! a) > targetTotal \<and>
     (\<forall>b \<in> set [0..<a]. \<not> totalPts s (acs ! b) > targetTotal)"

text \<open>An eliminated pick whose total (placement points plus bonus points) is the lowest
  among the eliminated picks.\<close>

definition is_lowest_total_eliminated :: "season \<Rightarrow> contestant option list \<Rightarrow> nat \<Rightarrow> bool" where
  "is_lowest_total_eliminated s pcs t \<longleftrightarrow>
     t < length pcs \<and> eliminated (pcs ! t) \<and>
     (\<forall>j \<in> set [0..<length pcs].
        eliminated (pcs ! j) \<longrightarrow> totalPts s (pcs ! t) \<le> totalPts s (pcs ! j))"


text \<open>The invariant of the loop that looks for the worst pick, over the picks \<open>pre\<close>
  already visited.\<close>

definition worst_inv :: "season \<Rightarrow> contestant option list \<Rightarrow> int \<times> int option \<Rightarrow> bool" where
  "worst_inv s pre st \<longleftrightarrow>
     (case st of (wi, wp) \<Rightarrow>
        (wi = - 1 \<and> wp = None \<and> (\<forall>c \<in> set pre. \<not> eliminated c)) \<or>
        (0 \<le> wi \<and> is_swap_target s pre (nat wi) \<and> wp = Some (placementPts s (pre ! nat wi))))"

subsection \<open>Example data\<close>

text \<open>A finished season of three contestants (the roster of the specification's scenarios
  A and B).\<close>

definition exSeason :: season where
  "exSeason = \<lparr>contestantCount = 3,
               scoring = [''winnerBonus'' \<mapsto> 5, ''runnerUpBonus'' \<mapsto> 2]\<rparr>"

definition contA :: contestant where
  "contA = \<lparr>name = ''A'', placement = Some 1, bonuses = None\<rparr>"

definition contB :: contestant where
  "contB = \<lparr>name = ''B'', placement = Some 2, bonuses = None\<rparr>"

definition contC :: contestant where
  "contC = \<lparr>name = ''C'', placement = Some 3, bonuses = None\<rparr>"

definition exRoster :: "contestant list" where
  "exRoster = [contA, contB, contC]"

definition swapPlayer :: submission where
  "swapPlayer = \<lparr>sub_name = ''p1'', picks = [''C'', ''B''], alternates = Some [''C'', ''A'']\<rparr>"

definition keepPlayer :: submission where
  "keepPlayer = \<lparr>sub_name = ''p2'', picks = [''A''], alternates = Some [''C'']\<rparr>"

definition soloPlayer :: submission where
  "soloPlayer = \<lparr>sub_name = ''p3'', picks = [''B''], alternates = None\<rparr>"

definition tiePlayer :: submission where
  "tiePlayer = \<lparr>sub_name = ''p4'', picks = [''A''], alternates = None\<rparr>"

definition ghostPlayer :: submission where
  "ghostPlayer = \<lparr>sub_name = ''p5'', picks = [''Nobody'', ''C''], alternates = Some [''Nemo'', ''A'']\<rparr>"


definition exSubs :: "submission list" where
  "exSubs = [soloPlayer, keepPlayer, swapPlayer, tiePlayer]"

text \<open>A season under way: four contestants, two of them eliminated, with bonus tallies.\<close>

definition midSeason :: season where
  "midSeason = \<lparr>contestantCount = 4,
                scoring = [''winnerBonus'' \<mapsto> 5, ''runnerUpBonus'' \<mapsto> 2,
                           ''immunityWin'' \<mapsto> 2, ''idolFound'' \<mapsto> 1]\<rparr>"

definition contW :: contestant where
  "contW = \<lparr>name = ''W'', placement = None, bonuses = Some [(''immunityWin'', 3)]\<rparr>"

definition contX :: contestant where
  "contX = \<lparr>name = ''X'', placement = Some 4,
            bonuses = Some [(''immunityWin'', 3), (''fireMaking'', 7)]\<rparr>"

definition contY :: contestant where
  "contY = \<lparr>name = ''Y'', placement = Some 3, bonuses = None\<rparr>"

definition contZ :: contestant where
  "contZ = \<lparr>name = ''Z'', placement = None, bonuses = Some [(''idolFound'', 3)]\<rparr>"

definition midRoster :: "contestant list" where
  "midRoster = [contW, contX, contY, contZ]"

definition tallyPlayer :: submission where
  "tallyPlayer = \<lparr>sub_name = ''q1'', picks = [''X'', ''Y''], alternates = Some [''Z'']\<rparr>"

definition activeAltPlayer :: submission where
  "activeAltPlayer = \<lparr>sub_name = ''q2'', picks = [''Y''], alternates = Some [''W'']\<rparr>"

section \<open>Auxiliary lemmas\<close>

lemmas engine_defs =
  computeStandings_def js_sort_def scorePlayer_def findSwap_def contestantMap_def
  pickContestants_def altContestants_def finalPicks_def activeAlts_def sumActive_def
  activePicks_def awardBonuses_def bonusAwardStep_def bonusStep_def totalPts_def
  placementPts_def bonusPts_def eliminated_def belowWorst_def js_nth_def Let_def

lemmas example_defs =
  exSeason_def exRoster_def contA_def contB_def contC_def swapPlayer_def keepPlayer_def
  soloPlayer_def tiePlayer_def exSubs_def midSeason_def midRoster_def
  contW_def contX_def contY_def contZ_def

lemma no_bex: "\<forall>x \<in> A. \<not> P x \<Longrightarrow> \<not> (\<exists>x \<in> A. P x)"
  by blast

subsection \<open>Points and totals\<close>


lemma foldl_skip_swappedOut:
  "foldl (\<lambda>t p. if swappedOut p then t else t + pk_total p) a fps =
     a + sum_list (map pk_total (filter (\<lambda>p. \<not> swappedOut p) fps))"
  by (induction fps arbitrary: a) auto

lemma foldl_add_swappedIn:
  "foldl (\<lambda>t alt. if swappedIn alt then t + alt_total alt else t) a alts =
     a + sum_list (map alt_total (filter swappedIn alts))"
  by (induction alts arbitrary: a) auto

lemma sumActive_eq:
  "sumActive fps alts =
     sum_list (map pk_total (filter (\<lambda>p. \<not> swappedOut p) fps)) +
     sum_list (map alt_total (filter swappedIn alts))"
  by (simp add: sumActive_def foldl_skip_swappedOut foldl_add_swappedIn)

lemma scorePlayer_total:
  "st_total (scorePlayer s cmap p) =
     sum_list (map pk_total (filter (\<lambda>p. \<not> swappedOut p) (st_picks (scorePlayer s cmap p)))) +
     sum_list (map alt_total (filter swappedIn (st_alternates (scorePlayer s cmap p)))) +
     winnerBonus (scorePlayer s cmap p) + runnerUpBonus (scorePlayer s cmap p)"
  by (simp add: scorePlayer_def Let_def sumActive_eq split: prod.splits)

lemma contestantMap_dom_aux:
  "dom (foldl (\<lambda>m c. m(name c \<mapsto> c)) m0 cs) = dom m0 \<union> name ` set cs"
  by (induction cs arbitrary: m0) auto

lemma contestantMap_None: "contestantMap cs n = None \<longleftrightarrow> n \<notin> name ` set cs"
proof -
  have "dom (contestantMap cs) = name ` set cs"
    by (simp add: contestantMap_def contestantMap_dom_aux)
  then show ?thesis by (metis domIff)
qed

subsection \<open>The search for the swap\<close>

lemma worst_inv_step:
  assumes "worst_inv s pre (wi, wp)"
  shows "worst_inv s (pre @ [c])
           (if eliminated c \<and> belowWorst (placementPts s c) wp
            then (int (length pre), Some (placementPts s c)) else (wi, wp))"
  using assms
  by (auto simp: worst_inv_def is_swap_target_def belowWorst_def nth_append less_Suc_eq
      all_set_conv_all_nth split: if_splits)

lemma worstLoop_inv:
  "worst_inv s pre st \<Longrightarrow> worst_inv s (pre @ cs) (worstLoop s cs (int (length pre)) st)"
proof (induction cs arbitrary: pre st)
  case Nil
  then show ?case by simp
next
  case (Cons c cs)
  obtain wi wp where st: "st = (wi, wp)" by (cases st)
  let ?st' = "if eliminated c \<and> belowWorst (placementPts s c) wp
            then (int (length pre), Some (placementPts s c)) else (wi, wp)"
  have "worst_inv s (pre @ [c]) ?st'"
    using Cons.prems st worst_inv_step by blast
  then have "worst_inv s ((pre @ [c]) @ cs) (worstLoop s cs (int (length (pre @ [c]))) ?st')"
    by (rule Cons.IH)
  moreover have "worstLoop s (c # cs) (int (length pre)) st =
                 worstLoop s cs (int (length (pre @ [c]))) ?st'"
    by (simp add: st Let_def add.commute)
  ultimately show ?case by simp
qed

lemma worstLoop_result:
  assumes "worstLoop s pcs 0 (- 1, None) = (wi, wp)"
  shows "(wi = - 1 \<and> (\<forall>c \<in> set pcs. \<not> eliminated c)) \<or>
         (0 \<le> wi \<and> is_swap_target s pcs (nat wi))"
proof -
  have "worst_inv s [] (- 1, None)" by (simp add: worst_inv_def)
  from worstLoop_inv[OF this, of pcs] assms show ?thesis
    by (auto simp: worst_inv_def)
qed

lemma is_swap_target_unique:
  "is_swap_target s pcs t \<Longrightarrow> is_swap_target s pcs t' \<Longrightarrow> t = t'"
  by (fastforce simp: is_swap_target_def)

lemma is_swap_target_eliminated:
  "is_swap_target s pcs t \<Longrightarrow> \<exists>c \<in> set pcs. eliminated c"
  by (auto simp: is_swap_target_def)

lemma swap_target_exists:
  assumes "\<exists>c \<in> set pcs. eliminated c"
  shows "\<exists>t. is_swap_target s pcs t"
proof -
  obtain wi wp where w: "worstLoop s pcs 0 (- 1, None) = (wi, wp)"
    by (cases "worstLoop s pcs 0 (- 1, None)")
  from worstLoop_result[OF w] assms show ?thesis by auto
qed

lemma altLoop_first:
  "is_first_better_alt s (totalPts s (js_nth pcs wi)) acs a \<Longrightarrow>
   altLoop s pcs wi acs a0 = (wi, a0 + int a)"
proof (induction acs arbitrary: a a0)
  case Nil
  then show ?case by (simp add: is_first_better_alt_def)
next
  case (Cons alt rest)
  show ?case
  proof (cases a)
    case 0
    with Cons.prems show ?thesis by (simp add: is_first_better_alt_def)
  next
    case (Suc a')
    from Cons.prems have all: "\<forall>b<a. \<not> totalPts s ((alt # rest) ! b) > totalPts s (js_nth pcs wi)"
      by (simp add: is_first_better_alt_def)
    with Suc have nb: "\<not> totalPts s alt > totalPts s (js_nth pcs wi)"
      by fastforce
    from all Suc have "\<forall>b<a'. \<not> totalPts s (rest ! b) > totalPts s (js_nth pcs wi)"
      by fastforce
    with Cons.prems Suc have "is_first_better_alt s (totalPts s (js_nth pcs wi)) rest a'"
      by (simp add: is_first_better_alt_def)
    from Cons.IH[OF this, of "a0 + 1"] nb Suc show ?thesis by simp
  qed
qed

lemma altLoop_none:
  "\<forall>alt \<in> set acs. \<not> totalPts s alt > totalPts s (js_nth pcs wi) \<Longrightarrow>
   altLoop s pcs wi acs a0 = (- 1, - 1)"
  by (induction acs arbitrary: a0) auto

lemma first_better_alt_exists:
  "\<exists>alt \<in> set acs. totalPts s alt > T \<Longrightarrow> \<exists>a. is_first_better_alt s T acs a"
proof (induction acs)
  case Nil
  then show ?case by simp
next
  case (Cons alt rest)
  show ?case
  proof (cases "totalPts s alt > T")
    case True
    then have "is_first_better_alt s T (alt # rest) 0"
      by (simp add: is_first_better_alt_def)
    then show ?thesis ..
  next
    case False
    with Cons obtain a where "is_first_better_alt s T rest a" by auto
    with False have "is_first_better_alt s T (alt # rest) (Suc a)"
      by (auto simp: is_first_better_alt_def nth_Cons split: nat.splits)
    then show ?thesis ..
  qed
qed

lemma js_nth_in_range: "t < length xs \<Longrightarrow> js_nth xs (int t) = xs ! t"
  by (simp add: js_nth_def)

lemma findSwap_swap:
  assumes "is_swap_target s pcs t"
    and "is_first_better_alt s (totalPts s (pcs ! t)) acs a"
  shows "findSwap s pcs acs = (int t, int a)"
proof -
  obtain wi wp where w: "worstLoop s pcs 0 (- 1, None) = (wi, wp)"
    by (cases "worstLoop s pcs 0 (- 1, None)")
  from worstLoop_result[OF w] assms(1) have wi: "wi = int t"
    using is_swap_target_eliminated is_swap_target_unique by fastforce
  from assms(1) have "t < length pcs" by (simp add: is_swap_target_def)
  then have "js_nth pcs wi = pcs ! t" by (simp add: wi js_nth_in_range)
  with assms(2) have "altLoop s pcs wi acs 0 = (wi, 0 + int a)"
    by (simp add: altLoop_first)
  moreover from assms(2) have "length acs > 0" by (auto simp: is_first_better_alt_def)
  ultimately show ?thesis by (simp add: findSwap_def w wi)
qed

lemma findSwap_none:
  assumes "acs = [] \<or> (\<forall>c \<in> set pcs. \<not> eliminated c) \<or>
           (is_swap_target s pcs t \<and> (\<forall>alt \<in> set acs. \<not> totalPts s alt > totalPts s (pcs ! t)))"
  shows "findSwap s pcs acs = (- 1, - 1)"
proof -
  obtain wi wp where w: "worstLoop s pcs 0 (- 1, None) = (wi, wp)"
    by (cases "worstLoop s pcs 0 (- 1, None)")
  note r = worstLoop_result[OF w]
  from assms consider "acs = []" | "\<forall>c \<in> set pcs. \<not> eliminated c"
    | "is_swap_target s pcs t" "\<forall>alt \<in> set acs. \<not> totalPts s alt > totalPts s (pcs ! t)"
    by blast
  then show ?thesis
  proof cases
    case 1
    then show ?thesis by (simp add: findSwap_def)
  next
    case 2
    with r have "wi = - 1" using is_swap_target_eliminated by blast
    then show ?thesis by (simp add: findSwap_def w)
  next
    case 3
    with r have wi: "wi = int t"
      using is_swap_target_eliminated is_swap_target_unique by fastforce
    from 3(1) have "t < length pcs" by (simp add: is_swap_target_def)
    then have "js_nth pcs wi = pcs ! t" by (simp add: wi js_nth_in_range)
    with 3(2) have "altLoop s pcs wi acs 0 = (- 1, - 1)" by (simp add: altLoop_none)
    then show ?thesis by (simp add: findSwap_def w)
  qed
qed

lemma findSwap_cases:
  obtains (none) "findSwap s pcs acs = (- 1, - 1)"
    "\<not> (\<exists>t. is_swap_target s pcs t \<and> (\<exists>alt \<in> set acs. totalPts s alt > totalPts s (pcs ! t)))"
  | (swap) t a where "is_swap_target s pcs t"
      "is_first_better_alt s (totalPts s (pcs ! t)) acs a"
      "findSwap s pcs acs = (int t, int a)"
proof (cases "\<exists>t. is_swap_target s pcs t \<and> (\<exists>alt \<in> set acs. totalPts s alt > totalPts s (pcs ! t))")
  case True
  then obtain t where t: "is_swap_target s pcs t"
    and ex: "\<exists>alt \<in> set acs. totalPts s alt > totalPts s (pcs ! t)" by blast
  from first_better_alt_exists[OF ex] obtain a
    where a: "is_first_better_alt s (totalPts s (pcs ! t)) acs a" ..
  from swap[OF t a findSwap_swap[OF t a]] show ?thesis .
next
  case False
  have "findSwap s pcs acs = (- 1, - 1)"
  proof (cases "\<exists>c \<in> set pcs. eliminated c")
    case True
    from swap_target_exists[OF this] obtain t where t: "is_swap_target s pcs t" ..
    with False have "\<forall>alt \<in> set acs. \<not> totalPts s alt > totalPts s (pcs ! t)" by blast
    with t show ?thesis using findSwap_none by blast
  next
    case False
    then show ?thesis using findSwap_none by blast
  qed
  from this False show ?thesis by (rule none)
qed

lemma findSwap_fst:
  "fst (findSwap s pcs acs) = - 1 \<or>
   (0 \<le> fst (findSwap s pcs acs) \<and> nat (fst (findSwap s pcs acs)) < length pcs \<and>
    eliminated (pcs ! nat (fst (findSwap s pcs acs))))"
  by (cases rule: findSwap_cases[of s pcs acs]) (auto simp: is_swap_target_def)

subsection \<open>The scored picks and alternates of a standing\<close>

lemma scorePlayer_picks:
  "st_picks (scorePlayer s cmap p) =
     finalPicks s (pickContestants cmap p)
       (fst (findSwap s (pickContestants cmap p) (altContestants cmap p)))"
  by (simp add: scorePlayer_def Let_def split: prod.splits)

lemma scorePlayer_alternates:
  "st_alternates (scorePlayer s cmap p) =
     activeAlts s (altContestants cmap p)
       (snd (findSwap s (pickContestants cmap p) (altContestants cmap p)))"
  by (simp add: scorePlayer_def Let_def split: prod.splits)


lemma scorePlayer_name: "st_name (scorePlayer s cmap p) = sub_name p"
  by (simp add: scorePlayer_def Let_def split: prod.splits)

lemma length_finalPicks: "length (finalPicks s pcs k) = length pcs"
  by (simp add: finalPicks_def)

lemma length_activeAlts: "length (activeAlts s acs k) = length acs"
  by (simp add: activeAlts_def)

lemma nth_finalPicks:
  "i < length pcs \<Longrightarrow>
   finalPicks s pcs k ! i =
     \<lparr>pk_contestant = pcs ! i, pk_placement = placementPts s (pcs ! i),
      pk_bonus = bonusPts s (pcs ! i), pk_total = totalPts s (pcs ! i),
      swappedOut = (int i = k)\<rparr>"
  by (simp add: finalPicks_def nth_enumerate_eq)

lemma nth_activeAlts:
  "a < length acs \<Longrightarrow>
   activeAlts s acs k ! a =
     \<lparr>alt_contestant = acs ! a, alt_placement = placementPts s (acs ! a),
      alt_bonus = bonusPts s (acs ! a), alt_total = totalPts s (acs ! a),
      swappedIn = (int a = k)\<rparr>"
  by (simp add: activeAlts_def nth_enumerate_eq)

lemma map_pk_contestant_finalPicks: "map pk_contestant (finalPicks s pcs k) = pcs"
  by (rule nth_equalityI) (simp_all add: length_finalPicks nth_finalPicks)

lemma map_alt_contestant_activeAlts: "map alt_contestant (activeAlts s acs k) = acs"
  by (rule nth_equalityI) (simp_all add: length_activeAlts nth_activeAlts)

lemma swappedOut_finalPicks_iff:
  "(\<exists>pk \<in> set (finalPicks s pcs k). swappedOut pk) \<longleftrightarrow> 0 \<le> k \<and> nat k < length pcs"
proof
  assume "\<exists>pk \<in> set (finalPicks s pcs k). swappedOut pk"
  then show "0 \<le> k \<and> nat k < length pcs"
    by (auto simp: in_set_conv_nth length_finalPicks nth_finalPicks)
next
  assume k: "0 \<le> k \<and> nat k < length pcs"
  then have "finalPicks s pcs k ! nat k \<in> set (finalPicks s pcs k)"
    by (simp add: length_finalPicks)
  moreover from k have "swappedOut (finalPicks s pcs k ! nat k)"
    by (simp add: nth_finalPicks)
  ultimately show "\<exists>pk \<in> set (finalPicks s pcs k). swappedOut pk" ..
qed

lemma swappedIn_activeAlts_iff:
  "(\<exists>al \<in> set (activeAlts s acs k). swappedIn al) \<longleftrightarrow> 0 \<le> k \<and> nat k < length acs"
proof
  assume "\<exists>al \<in> set (activeAlts s acs k). swappedIn al"
  then show "0 \<le> k \<and> nat k < length acs"
    by (auto simp: in_set_conv_nth length_activeAlts nth_activeAlts)
next
  assume k: "0 \<le> k \<and> nat k < length acs"
  then have "activeAlts s acs k ! nat k \<in> set (activeAlts s acs k)"
    by (simp add: length_activeAlts)
  moreover from k have "swappedIn (activeAlts s acs k ! nat k)"
    by (simp add: nth_activeAlts)
  ultimately show "\<exists>al \<in> set (activeAlts s acs k). swappedIn al" ..
qed

lemma filter_index_below:
  "k < int n \<Longrightarrow> filter (\<lambda>(i, c). int i = k) (enumerate n xs) = []"
  by (induction xs arbitrary: n) auto

lemma length_filter_index:
  "length (filter (\<lambda>(i, c). int i = k) (enumerate n xs)) \<le> 1"
proof (induction xs arbitrary: n)
  case Nil
  then show ?case by simp
next
  case (Cons x xs)
  show ?case
  proof (cases "int n = k")
    case True
    then have "filter (\<lambda>(i, c). int i = k) (enumerate (Suc n) xs) = []"
      by (intro filter_index_below) simp
    with True show ?thesis by simp
  next
    case False
    with Cons.IH[of "Suc n"] show ?thesis by simp
  qed
qed

lemma filter_swappedOut_le1: "length (filter swappedOut (finalPicks s pcs k)) \<le> 1"
proof -
  have "length (filter swappedOut (finalPicks s pcs k)) =
        length (filter (\<lambda>(i, c). int i = k) (enumerate 0 pcs))"
    by (simp add: finalPicks_def filter_map comp_def case_prod_unfold)
  with length_filter_index[of k 0 pcs] show ?thesis by simp
qed

lemma filter_swappedIn_le1: "length (filter swappedIn (activeAlts s acs k)) \<le> 1"
proof -
  have "length (filter swappedIn (activeAlts s acs k)) =
        length (filter (\<lambda>(i, c). int i = k) (enumerate 0 acs))"
    by (simp add: activeAlts_def filter_map comp_def case_prod_unfold)
  with length_filter_index[of k 0 acs] show ?thesis by simp
qed

lemma no_alternates_no_swap:
  assumes "alternates p = None \<or> alternates p = Some []"
  shows "(\<forall>pk \<in> set (st_picks (scorePlayer s cmap p)). \<not> swappedOut pk) \<and>
         st_alternates (scorePlayer s cmap p) = []"
proof -
  from assms have acs: "altContestants cmap p = []"
    by (auto simp: altContestants_def)
  then have fs: "findSwap s (pickContestants cmap p) (altContestants cmap p) = (- 1, - 1)"
    by (simp add: findSwap_def)
  have "\<not> (\<exists>pk \<in> set (st_picks (scorePlayer s cmap p)). swappedOut pk)"
    unfolding scorePlayer_picks fs by (simp only: swappedOut_finalPicks_iff) simp
  moreover have "st_alternates (scorePlayer s cmap p) = []"
    by (simp add: scorePlayer_alternates acs activeAlts_def)
  ultimately show ?thesis by blast
qed

lemma absent_pick_unswapped:
  assumes "i < length (picks p)" and "cmap (picks p ! i) = None"
  shows "st_picks (scorePlayer s cmap p) ! i =
     \<lparr>pk_contestant = None, pk_placement = 0, pk_bonus = 0, pk_total = 0, swappedOut = False\<rparr>"
proof -
  let ?pcs = "pickContestants cmap p" and ?acs = "altContestants cmap p"
  from assms have i: "i < length ?pcs" and none: "?pcs ! i = None"
    by (simp_all add: pickContestants_def)
  have "int i \<noteq> fst (findSwap s ?pcs ?acs)"
  proof
    assume eq: "int i = fst (findSwap s ?pcs ?acs)"
    with findSwap_fst[of s ?pcs ?acs] have "eliminated (?pcs ! nat (int i))" by auto
    with none show False by (simp add: eliminated_def)
  qed
  with i none show ?thesis
    by (simp add: scorePlayer_picks nth_finalPicks totalPts_def placementPts_def bonusPts_def)
qed

lemma absent_alternate_zero:
  assumes "alternates p = Some as" and "a < length as" and "cmap (as ! a) = None"
  shows "alt_contestant (st_alternates (scorePlayer s cmap p) ! a) = None \<and>
         alt_placement (st_alternates (scorePlayer s cmap p) ! a) = 0 \<and>
         alt_bonus (st_alternates (scorePlayer s cmap p) ! a) = 0 \<and>
         alt_total (st_alternates (scorePlayer s cmap p) ! a) = 0"
proof -
  from assms have "a < length (altContestants cmap p)" and "altContestants cmap p ! a = None"
    by (simp_all add: altContestants_def)
  then show ?thesis
    by (simp add: scorePlayer_alternates nth_activeAlts totalPts_def placementPts_def bonusPts_def)
qed



subsection \<open>Sorting\<close>

lemma mset_js_insert: "mset (js_insert cmp x xs) = add_mset x (mset xs)"
  by (induction xs) auto

lemma mset_js_sort: "mset (js_sort cmp xs) = mset xs"
  by (induction xs) (auto simp: js_sort_def mset_js_insert)

lemma set_js_sort: "set (js_sort cmp xs) = set xs"
  by (metis mset_js_sort set_mset_mset)

lemma set_computeStandings:
  "set (computeStandings s cs subs) = scorePlayer s (contestantMap cs) ` set subs"
  by (simp add: computeStandings_def set_js_sort)

lemma js_insert_insort_key:
  assumes "\<And>x y. (cmp x y \<le> 0) = (f x \<le> f y)"
  shows "js_insert cmp x xs = insort_key f x xs"
  by (induction xs) (auto simp: assms)

lemma js_sort_sort_key:
  assumes "\<And>x y. (cmp x y \<le> 0) = (f x \<le> f y)"
  shows "js_sort cmp xs = sort_key f xs"
  by (induction xs) (auto simp: js_sort_def js_insert_insort_key[OF assms] sort_key_def)

lemma computeStandings_sort_key:
  "computeStandings s cs subs =
     sort_key (\<lambda>st. - st_total st) (map (scorePlayer s (contestantMap cs)) subs)"
  unfolding computeStandings_def by (rule js_sort_sort_key) auto

section \<open>The claims\<close>

text \<open>
  The standings that \<open>computeStandings s contestants subs\<close> returns are the standings
  \<open>scorePlayer s (contestantMap contestants) p\<close> of the submissions \<open>p\<close> of \<open>subs\<close>, sorted.
  A statement about one player is therefore made about \<open>scorePlayer s cmap p\<close>, for every
  season, every contestant map and every submission. In a standing, the contestants of the
  picks are \<open>pickContestants cmap p\<close> and those of the alternates are
  \<open>altContestants cmap p\<close>, position by position.
\<close>

subsection \<open>Points calculator\<close>

text \<open>
  \<^bold>\<open>C6.\<close> The placement points of a contestant are \<open>contestantCount + 1 - placement\<close>
  when the contestant exists and is placed, and \<open>0\<close> when the contestant is absent or the
  placement is null. In particular the winner (placement 1) scores \<open>contestantCount\<close>, and
  the contestant eliminated first (placement \<open>contestantCount\<close>) scores 1.
\<close>

theorem placementPts_scale:
  "placementPts s None = 0 \<and>
   (placement c = None \<longrightarrow> placementPts s (Some c) = 0) \<and>
   (placement c = Some p \<longrightarrow> placementPts s (Some c) = contestantCount s + 1 - p) \<and>
   (placement c = Some 1 \<longrightarrow> placementPts s (Some c) = contestantCount s) \<and>
   (placement c = Some (contestantCount s) \<longrightarrow> placementPts s (Some c) = 1)"
  by (simp add: placementPts_def)

theorem placementPts_scale_witness:
  "placement contA = Some 1 \<and> placementPts exSeason (Some contA) = 3 \<and>
   placement contB = Some 2 \<and> placementPts exSeason (Some contB) = 3 + 1 - 2 \<and>
   placement contC = Some (contestantCount exSeason) \<and> placementPts exSeason (Some contC) = 1 \<and>
   placement contW = None \<and> placementPts midSeason (Some contW) = 0"
proof -
  have a: "placement contA = Some 1" by (simp add: contA_def)
  have b: "placement contB = Some 2" by (simp add: contB_def)
  have c: "placement contC = Some (contestantCount exSeason)"
    by (simp add: contC_def exSeason_def)
  have w: "placement contW = None" by (simp add: contW_def)
  have n: "contestantCount exSeason = 3" by (simp add: exSeason_def)
  from placementPts_scale[of exSeason contA 1] a n
  have "placementPts exSeason (Some contA) = 3" by simp
  moreover from placementPts_scale[of exSeason contB 2] b n
  have "placementPts exSeason (Some contB) = 3 + 1 - 2" by simp
  moreover from placementPts_scale[of exSeason contC 3] c
  have "placementPts exSeason (Some contC) = 1" by simp
  moreover from placementPts_scale[of midSeason contW 0] w
  have "placementPts midSeason (Some contW) = 0" by simp
  ultimately show ?thesis using a b c w by simp
qed



subsection \<open>Swap selector\<close>

text \<open>
  \<^bold>\<open>C2.\<close> For every player the swap target is the pick whose contestant is eliminated and
  has the lowest placement points, the earliest such pick in the order of the submitted
  picks; the alternate marked \<open>swappedIn\<close> is the first one, in the order of the submitted
  alternates, whose total strictly exceeds the total of the target, and the target is the
  pick marked \<open>swappedOut\<close>. If the player has no alternates, or no pick is eliminated, or
  no alternate's total strictly exceeds the target's, no pick is marked \<open>swappedOut\<close> and
  no alternate is marked \<open>swappedIn\<close>. Whenever a pick is eliminated the target exists and
  is unique.
\<close>

theorem swap_selector:
  fixes s cmap p
  defines "pcs \<equiv> pickContestants cmap p"
    and "acs \<equiv> altContestants cmap p"
    and "st \<equiv> scorePlayer s cmap p"
  shows
    "map pk_contestant (st_picks st) = pcs \<and> map alt_contestant (st_alternates st) = acs \<and>
     (is_swap_target s pcs t \<and> is_first_better_alt s (totalPts s (pcs ! t)) acs a \<longrightarrow>
        (\<forall>i \<in> set [0..<length pcs]. swappedOut (st_picks st ! i) = (i = t)) \<and>
        (\<forall>b \<in> set [0..<length acs]. swappedIn (st_alternates st ! b) = (b = a))) \<and>
     (acs = [] \<or> (\<forall>c \<in> set pcs. \<not> eliminated c) \<or>
      (is_swap_target s pcs t \<and> (\<forall>alt \<in> set acs. \<not> totalPts s alt > totalPts s (pcs ! t))) \<longrightarrow>
        (\<forall>pk \<in> set (st_picks st). \<not> swappedOut pk) \<and>
        (\<forall>al \<in> set (st_alternates st). \<not> swappedIn al)) \<and>
     ((\<exists>c \<in> set pcs. eliminated c) \<longrightarrow> (\<exists>!t'. is_swap_target s pcs t'))"
proof (intro conjI impI)
  show "map pk_contestant (st_picks st) = pcs"
    by (simp add: st_def pcs_def scorePlayer_picks map_pk_contestant_finalPicks)
  show "map alt_contestant (st_alternates st) = acs"
    by (simp add: st_def acs_def scorePlayer_alternates map_alt_contestant_activeAlts)
next
  assume "is_swap_target s pcs t \<and> is_first_better_alt s (totalPts s (pcs ! t)) acs a"
  then have fs: "findSwap s pcs acs = (int t, int a)" by (simp add: findSwap_swap)
  show "\<forall>i \<in> set [0..<length pcs]. swappedOut (st_picks st ! i) = (i = t)"
    using fs by (simp add: st_def scorePlayer_picks nth_finalPicks flip: pcs_def acs_def)
  show "\<forall>b \<in> set [0..<length acs]. swappedIn (st_alternates st ! b) = (b = a)"
    using fs by (simp add: st_def scorePlayer_alternates nth_activeAlts flip: pcs_def acs_def)
next
  assume "acs = [] \<or> (\<forall>c \<in> set pcs. \<not> eliminated c) \<or>
      (is_swap_target s pcs t \<and> (\<forall>alt \<in> set acs. \<not> totalPts s alt > totalPts s (pcs ! t)))"
  then have fs: "findSwap s pcs acs = (- 1, - 1)" by (rule findSwap_none)
  have "\<not> (\<exists>pk \<in> set (st_picks st). swappedOut pk)"
    using fs unfolding st_def scorePlayer_picks
    by (simp only: swappedOut_finalPicks_iff flip: pcs_def acs_def) simp
  then show "\<forall>pk \<in> set (st_picks st). \<not> swappedOut pk" by blast
  have "\<not> (\<exists>al \<in> set (st_alternates st). swappedIn al)"
    using fs unfolding st_def scorePlayer_alternates
    by (simp only: swappedIn_activeAlts_iff flip: pcs_def acs_def) simp
  then show "\<forall>al \<in> set (st_alternates st). \<not> swappedIn al" by blast
next
  assume "\<exists>c \<in> set pcs. eliminated c"
  then show "\<exists>!t'. is_swap_target s pcs t'"
    using swap_target_exists is_swap_target_unique by blast
qed

theorem swap_selector_witness:
  "is_swap_target exSeason (pickContestants (contestantMap exRoster) swapPlayer) 0 \<and>
   is_first_better_alt exSeason
     (totalPts exSeason (pickContestants (contestantMap exRoster) swapPlayer ! 0))
     (altContestants (contestantMap exRoster) swapPlayer) 1 \<and>
   swappedOut (st_picks (scorePlayer exSeason (contestantMap exRoster) swapPlayer) ! 0) \<and>
   \<not> swappedOut (st_picks (scorePlayer exSeason (contestantMap exRoster) swapPlayer) ! 1) \<and>
   \<not> swappedIn (st_alternates (scorePlayer exSeason (contestantMap exRoster) swapPlayer) ! 0) \<and>
   swappedIn (st_alternates (scorePlayer exSeason (contestantMap exRoster) swapPlayer) ! 1) \<and>
   is_swap_target exSeason (pickContestants (contestantMap exRoster) keepPlayer) 0 \<and>
   \<not> (\<exists>alt \<in> set (altContestants (contestantMap exRoster) keepPlayer).
        totalPts exSeason alt >
          totalPts exSeason (pickContestants (contestantMap exRoster) keepPlayer ! 0)) \<and>
   \<not> (\<exists>pk \<in> set (st_picks (scorePlayer exSeason (contestantMap exRoster) keepPlayer)).
        swappedOut pk) \<and>
   \<not> (\<exists>al \<in> set (st_alternates (scorePlayer exSeason (contestantMap exRoster) keepPlayer)).
        swappedIn al)"
proof -
  let ?cm = "contestantMap exRoster"
  have t: "is_swap_target exSeason (pickContestants ?cm swapPlayer) 0"
    by (simp add: is_swap_target_def engine_defs example_defs)
  have a: "is_first_better_alt exSeason
     (totalPts exSeason (pickContestants ?cm swapPlayer ! 0)) (altContestants ?cm swapPlayer) 1"
    by (simp add: is_first_better_alt_def engine_defs example_defs)
  have ip: "0 \<in> set [0..<length (pickContestants ?cm swapPlayer)]"
    "1 \<in> set [0..<length (pickContestants ?cm swapPlayer)]"
    by (simp_all add: pickContestants_def swapPlayer_def)
  have ia: "0 \<in> set [0..<length (altContestants ?cm swapPlayer)]"
    "1 \<in> set [0..<length (altContestants ?cm swapPlayer)]"
    by (simp_all add: altContestants_def swapPlayer_def)
  note sw = swap_selector[of exSeason ?cm swapPlayer 0 1, THEN conjunct2, THEN conjunct2,
      THEN conjunct1, THEN mp, OF conjI[OF t a]]
  from sw[THEN conjunct1, THEN bspec, OF ip(1)]
  have o0: "swappedOut (st_picks (scorePlayer exSeason ?cm swapPlayer) ! 0)" by simp
  from sw[THEN conjunct1, THEN bspec, OF ip(2)]
  have o1: "\<not> swappedOut (st_picks (scorePlayer exSeason ?cm swapPlayer) ! 1)" by simp
  from sw[THEN conjunct2, THEN bspec, OF ia(1)]
  have i0: "\<not> swappedIn (st_alternates (scorePlayer exSeason ?cm swapPlayer) ! 0)" by simp
  from sw[THEN conjunct2, THEN bspec, OF ia(2)]
  have i1: "swappedIn (st_alternates (scorePlayer exSeason ?cm swapPlayer) ! 1)" by simp
  have t': "is_swap_target exSeason (pickContestants ?cm keepPlayer) 0"
    by (simp add: is_swap_target_def engine_defs example_defs)
  have n': "\<forall>alt \<in> set (altContestants ?cm keepPlayer).
      \<not> totalPts exSeason alt > totalPts exSeason (pickContestants ?cm keepPlayer ! 0)"
    by (simp add: engine_defs example_defs)
  note ns = swap_selector[of exSeason ?cm keepPlayer 0, THEN conjunct2, THEN conjunct2,
      THEN conjunct2, THEN conjunct1, THEN mp, OF disjI2[OF disjI2[OF conjI[OF t' n']]]]
  from t a o0 o1 i0 i1 t' no_bex[OF n'] no_bex[OF ns[THEN conjunct1]]
    no_bex[OF ns[THEN conjunct2]]
  show ?thesis by (intro conjI)
qed

text \<open>
  \<^bold>\<open>C3.\<close> As stated, the claim compares the alternates with the eliminated pick of the
  lowest \<^emph>\<open>total\<close>. The engine compares them with the swap target, which is the
  eliminated pick of the lowest \<^emph>\<open>placement points\<close>; bonus points can make the two
  differ. In the season under way, the player with picks X, Y and alternate Z has X as the
  target (placement points 1, total 7) while Y has the lowest total (2); Z scores 3, which
  exceeds 2 but not 7, and nothing is swapped.
\<close>

theorem swap_by_lowest_total_counterexample:
  "is_lowest_total_eliminated midSeason (pickContestants (contestantMap midRoster) tallyPlayer) 1 \<and>
   totalPts midSeason (pickContestants (contestantMap midRoster) tallyPlayer ! 1) = 2 \<and>
   totalPts midSeason (altContestants (contestantMap midRoster) tallyPlayer ! 0) = 3 \<and>
   is_swap_target midSeason (pickContestants (contestantMap midRoster) tallyPlayer) 0 \<and>
   totalPts midSeason (pickContestants (contestantMap midRoster) tallyPlayer ! 0) = 7 \<and>
   map swappedOut (st_picks (scorePlayer midSeason (contestantMap midRoster) tallyPlayer)) =
     [False, False] \<and>
   map swappedIn (st_alternates (scorePlayer midSeason (contestantMap midRoster) tallyPlayer)) =
     [False]"
  by (simp add: is_lowest_total_eliminated_def is_swap_target_def engine_defs example_defs
      tallyPlayer_def)

text \<open>
  \<^bold>\<open>C3, amended.\<close> For every player a swap occurs if and only if some pick is the swap
  target (an eliminated pick of the lowest placement points, the earliest on ties) and some
  alternate's total strictly exceeds the total of that target; when a swap occurs, the
  alternate marked \<open>swappedIn\<close> is the first one in submission order that satisfies the
  strict inequality.
\<close>

theorem swap_iff_target_exceeded:
  fixes s cmap p
  defines "pcs \<equiv> pickContestants cmap p"
    and "acs \<equiv> altContestants cmap p"
    and "st \<equiv> scorePlayer s cmap p"
  shows
    "((\<exists>pk \<in> set (st_picks st). swappedOut pk) \<longleftrightarrow>
        (\<exists>t. is_swap_target s pcs t \<and> (\<exists>alt \<in> set acs. totalPts s alt > totalPts s (pcs ! t)))) \<and>
     ((\<exists>al \<in> set (st_alternates st). swappedIn al) \<longleftrightarrow>
        (\<exists>t. is_swap_target s pcs t \<and> (\<exists>alt \<in> set acs. totalPts s alt > totalPts s (pcs ! t)))) \<and>
     (\<forall>a \<in> set [0..<length acs].
        swappedIn (st_alternates st ! a) \<longrightarrow>
          (\<exists>t. is_swap_target s pcs t \<and> is_first_better_alt s (totalPts s (pcs ! t)) acs a))"
proof (cases rule: findSwap_cases[of s pcs acs])
  case none
  have p: "st_picks st = finalPicks s pcs (- 1)"
    using none(1) by (simp add: st_def scorePlayer_picks flip: pcs_def acs_def)
  have q: "st_alternates st = activeAlts s acs (- 1)"
    using none(1) by (simp add: st_def scorePlayer_alternates flip: pcs_def acs_def)
  have "\<not> (\<exists>pk \<in> set (st_picks st). swappedOut pk)"
    unfolding p by (simp only: swappedOut_finalPicks_iff) simp
  moreover have "\<not> (\<exists>al \<in> set (st_alternates st). swappedIn al)"
    unfolding q by (simp only: swappedIn_activeAlts_iff) simp
  moreover have "\<forall>a \<in> set [0..<length acs]. \<not> swappedIn (st_alternates st ! a)"
    unfolding q by (simp add: nth_activeAlts)
  ultimately show ?thesis using none(2) by blast
next
  case (swap t a)
  have p: "st_picks st = finalPicks s pcs (int t)"
    using swap(3) by (simp add: st_def scorePlayer_picks flip: pcs_def acs_def)
  have q: "st_alternates st = activeAlts s acs (int a)"
    using swap(3) by (simp add: st_def scorePlayer_alternates flip: pcs_def acs_def)
  from swap(1) have t: "t < length pcs" by (simp add: is_swap_target_def)
  from swap(2) have a: "a < length acs" and better: "totalPts s (acs ! a) > totalPts s (pcs ! t)"
    by (simp_all add: is_first_better_alt_def)
  have "\<exists>pk \<in> set (st_picks st). swappedOut pk"
    unfolding p using t by (simp only: swappedOut_finalPicks_iff) simp
  moreover have "\<exists>al \<in> set (st_alternates st). swappedIn al"
    unfolding q using a by (simp only: swappedIn_activeAlts_iff) simp
  moreover have "\<exists>t. is_swap_target s pcs t \<and> (\<exists>alt \<in> set acs. totalPts s alt > totalPts s (pcs ! t))"
    using swap(1) a better nth_mem by blast
  moreover have "\<forall>b \<in> set [0..<length acs].
        swappedIn (st_alternates st ! b) \<longrightarrow>
          (\<exists>t. is_swap_target s pcs t \<and> is_first_better_alt s (totalPts s (pcs ! t)) acs b)"
    unfolding q using swap(1,2) by (auto simp: nth_activeAlts)
  ultimately show ?thesis by blast
qed

theorem swap_iff_target_exceeded_witness:
  "is_swap_target exSeason (pickContestants (contestantMap exRoster) swapPlayer) 0 \<and>
   totalPts exSeason (altContestants (contestantMap exRoster) swapPlayer ! 1) >
     totalPts exSeason (pickContestants (contestantMap exRoster) swapPlayer ! 0) \<and>
   (\<exists>pk \<in> set (st_picks (scorePlayer exSeason (contestantMap exRoster) swapPlayer)).
      swappedOut pk) \<and>
   (\<exists>al \<in> set (st_alternates (scorePlayer exSeason (contestantMap exRoster) swapPlayer)).
      swappedIn al) \<and>
   swappedIn (st_alternates (scorePlayer exSeason (contestantMap exRoster) swapPlayer) ! 1) \<and>
   (\<exists>t. is_swap_target exSeason (pickContestants (contestantMap exRoster) swapPlayer) t \<and>
        is_first_better_alt exSeason
          (totalPts exSeason (pickContestants (contestantMap exRoster) swapPlayer ! t))
          (altContestants (contestantMap exRoster) swapPlayer) 1)"
proof -
  let ?cm = "contestantMap exRoster"
  let ?pcs = "pickContestants ?cm swapPlayer" and ?acs = "altContestants ?cm swapPlayer"
  have t: "is_swap_target exSeason ?pcs 0"
    by (simp add: is_swap_target_def engine_defs example_defs)
  have b: "totalPts exSeason (?acs ! 1) > totalPts exSeason (?pcs ! 0)"
    by (simp add: engine_defs example_defs)
  have m: "?acs ! 1 \<in> set ?acs"
    by (simp add: altContestants_def swapPlayer_def)
  have rhs: "\<exists>t. is_swap_target exSeason ?pcs t \<and>
                 (\<exists>alt \<in> set ?acs. totalPts exSeason alt > totalPts exSeason (?pcs ! t))"
    using t b m by (intro exI[of _ 0] conjI bexI[of _ "?acs ! 1"])
  note th = swap_iff_target_exceeded[of exSeason ?cm swapPlayer]
  from th[THEN conjunct1] rhs
  have out: "\<exists>pk \<in> set (st_picks (scorePlayer exSeason ?cm swapPlayer)). swappedOut pk"
    by (rule iffD2)
  from th[THEN conjunct2, THEN conjunct1] rhs
  have inn: "\<exists>al \<in> set (st_alternates (scorePlayer exSeason ?cm swapPlayer)). swappedIn al"
    by (rule iffD2)
  have i1: "1 \<in> set [0..<length ?acs]"
    by (simp add: altContestants_def swapPlayer_def)
  have s1: "swappedIn (st_alternates (scorePlayer exSeason ?cm swapPlayer) ! 1)"
    by (simp add: engine_defs example_defs)
  from th[THEN conjunct2, THEN conjunct2, THEN bspec, OF i1, THEN mp, OF s1]
  have first: "\<exists>t. is_swap_target exSeason ?pcs t \<and>
        is_first_better_alt exSeason (totalPts exSeason (?pcs ! t)) ?acs 1" .
  from t b out inn s1 first show ?thesis by (intro conjI)
qed

text \<open>
  \<^bold>\<open>C8.\<close> Every standing has at most one pick marked \<open>swappedOut\<close> and at most one
  alternate marked \<open>swappedIn\<close>; a player who submitted no alternates (the field is
  missing or the array is empty) has no pick marked \<open>swappedOut\<close> and no alternate at all.
\<close>

theorem at_most_one_swap:
  "(\<forall>st \<in> set (computeStandings s cs subs).
      length (filter swappedOut (st_picks st)) \<le> 1 \<and>
      length (filter swappedIn (st_alternates st)) \<le> 1) \<and>
   (\<forall>p \<in> set subs.
      alternates p = None \<or> alternates p = Some [] \<longrightarrow>
        (\<forall>pk \<in> set (st_picks (scorePlayer s (contestantMap cs) p)). \<not> swappedOut pk) \<and>
        st_alternates (scorePlayer s (contestantMap cs) p) = [])"
proof -
  have one: "\<forall>st \<in> set (computeStandings s cs subs).
      length (filter swappedOut (st_picks st)) \<le> 1 \<and>
      length (filter swappedIn (st_alternates st)) \<le> 1"
  proof
    fix st assume "st \<in> set (computeStandings s cs subs)"
    then obtain p where st: "st = scorePlayer s (contestantMap cs) p"
      by (auto simp: set_computeStandings)
    have "length (filter swappedOut (st_picks st)) \<le> 1"
      unfolding st scorePlayer_picks by (rule filter_swappedOut_le1)
    moreover have "length (filter swappedIn (st_alternates st)) \<le> 1"
      unfolding st scorePlayer_alternates by (rule filter_swappedIn_le1)
    ultimately show "length (filter swappedOut (st_picks st)) \<le> 1 \<and>
      length (filter swappedIn (st_alternates st)) \<le> 1" ..
  qed
  have none: "\<forall>p \<in> set subs.
      alternates p = None \<or> alternates p = Some [] \<longrightarrow>
        (\<forall>pk \<in> set (st_picks (scorePlayer s (contestantMap cs) p)). \<not> swappedOut pk) \<and>
        st_alternates (scorePlayer s (contestantMap cs) p) = []"
    using no_alternates_no_swap by blast
  from one none show ?thesis ..
qed

theorem at_most_one_swap_witness:
  "scorePlayer exSeason (contestantMap exRoster) swapPlayer
     \<in> set (computeStandings exSeason exRoster exSubs) \<and>
   length (filter swappedOut
     (st_picks (scorePlayer exSeason (contestantMap exRoster) swapPlayer))) \<le> 1 \<and>
   length (filter swappedIn
     (st_alternates (scorePlayer exSeason (contestantMap exRoster) swapPlayer))) \<le> 1 \<and>
   soloPlayer \<in> set exSubs \<and> alternates soloPlayer = None \<and>
   \<not> (\<exists>pk \<in> set (st_picks (scorePlayer exSeason (contestantMap exRoster) soloPlayer)).
        swappedOut pk) \<and>
   st_alternates (scorePlayer exSeason (contestantMap exRoster) soloPlayer) = []"
proof -
  let ?cm = "contestantMap exRoster"
  have mem: "scorePlayer exSeason ?cm swapPlayer \<in> set (computeStandings exSeason exRoster exSubs)"
    by (simp add: set_computeStandings exSubs_def)
  have solo: "soloPlayer \<in> set exSubs" by (simp add: exSubs_def)
  have none: "alternates soloPlayer = None" by (simp add: soloPlayer_def)
  note th = at_most_one_swap[of exSeason exRoster exSubs]
  note one = th[THEN conjunct1, THEN bspec, OF mem]
  note zero = th[THEN conjunct2, THEN bspec, OF solo, THEN mp, OF disjI1[OF none]]
  from mem one[THEN conjunct1] one[THEN conjunct2] solo none
    no_bex[OF zero[THEN conjunct1]] zero[THEN conjunct2]
  show ?thesis by (intro conjI)
qed

subsection \<open>Bonus evaluator\<close>



subsection \<open>Aggregator and sorter\<close>

text \<open>
  \<^bold>\<open>C1.\<close> For every standing that \<open>computeStandings\<close> produces, \<open>total\<close> is the sum of
  the totals of the picks not marked \<open>swappedOut\<close>, plus the totals of the alternates
  marked \<open>swappedIn\<close>, plus the winner bonus awarded, plus the runner-up bonus awarded;
  the total of a swapped-out pick is not counted.
\<close>

theorem total_decomposition:
  "\<forall>st \<in> set (computeStandings s cs subs).
     st_total st =
       sum_list (map pk_total (filter (\<lambda>p. \<not> swappedOut p) (st_picks st))) +
       sum_list (map alt_total (filter swappedIn (st_alternates st))) +
       winnerBonus st + runnerUpBonus st"
  using scorePlayer_total by (auto simp: set_computeStandings)

theorem total_decomposition_witness:
  "scorePlayer exSeason (contestantMap exRoster) swapPlayer
     \<in> set (computeStandings exSeason exRoster exSubs) \<and>
   map pk_total (st_picks (scorePlayer exSeason (contestantMap exRoster) swapPlayer)) = [1, 2] \<and>
   map swappedOut (st_picks (scorePlayer exSeason (contestantMap exRoster) swapPlayer)) =
     [True, False] \<and>
   map alt_total (st_alternates (scorePlayer exSeason (contestantMap exRoster) swapPlayer)) =
     [1, 3] \<and>
   map swappedIn (st_alternates (scorePlayer exSeason (contestantMap exRoster) swapPlayer)) =
     [False, True] \<and>
   winnerBonus (scorePlayer exSeason (contestantMap exRoster) swapPlayer) = 5 \<and>
   runnerUpBonus (scorePlayer exSeason (contestantMap exRoster) swapPlayer) = 2 \<and>
   st_total (scorePlayer exSeason (contestantMap exRoster) swapPlayer) = 2 + 3 + 5 + 2"
proof -
  let ?st = "scorePlayer exSeason (contestantMap exRoster) swapPlayer"
  have mem: "?st \<in> set (computeStandings exSeason exRoster exSubs)"
    by (simp add: set_computeStandings exSubs_def)
  have pk: "map pk_total (st_picks ?st) = [1, 2]"
    and so: "map swappedOut (st_picks ?st) = [True, False]"
    and al: "map alt_total (st_alternates ?st) = [1, 3]"
    and si: "map swappedIn (st_alternates ?st) = [False, True]"
    and w: "winnerBonus ?st = 5" and r: "runnerUpBonus ?st = 2"
    by (simp_all add: engine_defs example_defs)
  have p: "sum_list (map pk_total (filter (\<lambda>p. \<not> swappedOut p) (st_picks ?st))) = 2"
    and a: "sum_list (map alt_total (filter swappedIn (st_alternates ?st))) = 3"
    by (simp_all add: engine_defs example_defs)
  from total_decomposition[of exSeason exRoster exSubs, THEN bspec, OF mem] p a w r
  have "st_total ?st = 2 + 3 + 5 + 2" by simp
  with mem pk so al si w r show ?thesis by (intro conjI)
qed

text \<open>
  \<^bold>\<open>C4.\<close> The list that \<open>computeStandings\<close> returns is in descending order of \<open>total\<close>, and
  the standings of any one total appear in the order in which their submissions appear in
  the input. (The order of the result is that of \<^verbatim>\<open>Array.prototype.sort\<close>, a stable
  sort by the language standard.)
\<close>

theorem standings_sorted_stable:
  "sorted_wrt (\<lambda>a b. st_total a \<ge> st_total b) (computeStandings s cs subs) \<and>
   (\<forall>k. filter (\<lambda>st. st_total st = k) (computeStandings s cs subs) =
        filter (\<lambda>st. st_total st = k) (map (scorePlayer s (contestantMap cs)) subs))"
proof
  have "sorted (map (\<lambda>st. - st_total st) (computeStandings s cs subs))"
    by (simp add: computeStandings_sort_key)
  then show "sorted_wrt (\<lambda>a b. st_total a \<ge> st_total b) (computeStandings s cs subs)"
    by (simp add: sorted_map)
next
  show "\<forall>k. filter (\<lambda>st. st_total st = k) (computeStandings s cs subs) =
        filter (\<lambda>st. st_total st = k) (map (scorePlayer s (contestantMap cs)) subs)"
  proof
    fix k
    have "filter (\<lambda>st. - st_total st = - k) (computeStandings s cs subs) =
          filter (\<lambda>st. - st_total st = - k) (map (scorePlayer s (contestantMap cs)) subs)"
      unfolding computeStandings_sort_key by (rule sort_key_stable)
    then show "filter (\<lambda>st. st_total st = k) (computeStandings s cs subs) =
        filter (\<lambda>st. st_total st = k) (map (scorePlayer s (contestantMap cs)) subs)"
      by simp
  qed
qed

theorem standings_sorted_stable_witness:
  "map sub_name exSubs = [''p3'', ''p2'', ''p1'', ''p4''] \<and>
   map st_total (map (scorePlayer exSeason (contestantMap exRoster)) exSubs) = [4, 8, 12, 8] \<and>
   sorted_wrt (\<lambda>a b. st_total a \<ge> st_total b) (computeStandings exSeason exRoster exSubs) \<and>
   map st_name (filter (\<lambda>st. st_total st = 8) (computeStandings exSeason exRoster exSubs)) =
     [''p2'', ''p4''] \<and>
   map st_name (computeStandings exSeason exRoster exSubs) = [''p1'', ''p2'', ''p4'', ''p3'']"
proof -
  have n: "map sub_name exSubs = [''p3'', ''p2'', ''p1'', ''p4'']"
    by (simp add: example_defs)
  have tot: "map st_total (map (scorePlayer exSeason (contestantMap exRoster)) exSubs) =
             [4, 8, 12, 8]"
    by (simp add: engine_defs example_defs)
  have pre: "map st_name (filter (\<lambda>st. st_total st = 8)
               (map (scorePlayer exSeason (contestantMap exRoster)) exSubs)) = [''p2'', ''p4'']"
    by (simp add: engine_defs example_defs)
  note th = standings_sorted_stable[of exSeason exRoster exSubs]
  from th[THEN conjunct2, THEN spec, of 8] pre
  have ties: "map st_name (filter (\<lambda>st. st_total st = 8)
                (computeStandings exSeason exRoster exSubs)) = [''p2'', ''p4'']"
    by simp
  have ord: "map st_name (computeStandings exSeason exRoster exSubs) =
             [''p1'', ''p2'', ''p4'', ''p3'']"
    by (simp add: engine_defs example_defs)
  from n tot th[THEN conjunct1] ties ord show ?thesis by (intro conjI)
qed

subsection \<open>Degenerate input\<close>

text \<open>
  \<^bold>\<open>C9.\<close> The engine has no failing path on well-typed input: every function of the
  embedding is total and returns a plain value, as the source has no \<^verbatim>\<open>throw\<close> and
  dereferences a contestant only behind the test \<^verbatim>\<open>!c\<close>. A pick or alternate whose
  name matches no contestant of the roster is a null contestant: its placement points,
  bonus points and total are \<open>0\<close>. Such a pick is never the swap target, so it stays
  unswapped at 0 points. Every submitted player appears exactly once in the result.
\<close>

theorem absent_contestant_scores_zero:
  "placementPts s None = 0 \<and> bonusPts s None = 0 \<and> totalPts s None = 0 \<and>
   (\<forall>p \<in> set subs. \<forall>i \<in> set [0..<length (picks p)].
      picks p ! i \<notin> name ` set cs \<longrightarrow>
        st_picks (scorePlayer s (contestantMap cs) p) ! i =
          \<lparr>pk_contestant = None, pk_placement = 0, pk_bonus = 0, pk_total = 0,
           swappedOut = False\<rparr>) \<and>
   (\<forall>p \<in> set subs. \<forall>as. alternates p = Some as \<longrightarrow>
      (\<forall>a \<in> set [0..<length as].
         as ! a \<notin> name ` set cs \<longrightarrow>
           alt_contestant (st_alternates (scorePlayer s (contestantMap cs) p) ! a) = None \<and>
           alt_placement (st_alternates (scorePlayer s (contestantMap cs) p) ! a) = 0 \<and>
           alt_bonus (st_alternates (scorePlayer s (contestantMap cs) p) ! a) = 0 \<and>
           alt_total (st_alternates (scorePlayer s (contestantMap cs) p) ! a) = 0)) \<and>
   length (computeStandings s cs subs) = length subs \<and>
   mset (computeStandings s cs subs) = image_mset (scorePlayer s (contestantMap cs)) (mset subs) \<and>
   mset (map st_name (computeStandings s cs subs)) = mset (map sub_name subs)"
proof -
  have zero: "placementPts s None = 0 \<and> bonusPts s None = 0 \<and> totalPts s None = 0"
    by (simp add: totalPts_def placementPts_def bonusPts_def)
  have pk: "\<forall>p \<in> set subs. \<forall>i \<in> set [0..<length (picks p)].
      picks p ! i \<notin> name ` set cs \<longrightarrow>
        st_picks (scorePlayer s (contestantMap cs) p) ! i =
          \<lparr>pk_contestant = None, pk_placement = 0, pk_bonus = 0, pk_total = 0,
           swappedOut = False\<rparr>"
    using absent_pick_unswapped contestantMap_None by simp
  have al: "\<forall>p \<in> set subs. \<forall>as. alternates p = Some as \<longrightarrow>
      (\<forall>a \<in> set [0..<length as].
         as ! a \<notin> name ` set cs \<longrightarrow>
           alt_contestant (st_alternates (scorePlayer s (contestantMap cs) p) ! a) = None \<and>
           alt_placement (st_alternates (scorePlayer s (contestantMap cs) p) ! a) = 0 \<and>
           alt_bonus (st_alternates (scorePlayer s (contestantMap cs) p) ! a) = 0 \<and>
           alt_total (st_alternates (scorePlayer s (contestantMap cs) p) ! a) = 0)"
    using absent_alternate_zero contestantMap_None by simp
  have m: "mset (computeStandings s cs subs) =
           image_mset (scorePlayer s (contestantMap cs)) (mset subs)"
    by (simp add: computeStandings_def mset_js_sort)
  have len: "length (computeStandings s cs subs) = length subs"
    using m by (metis size_mset length_map mset_map)
  have "mset (map st_name (computeStandings s cs subs)) =
        image_mset st_name (image_mset (scorePlayer s (contestantMap cs)) (mset subs))"
    using m by (metis mset_map)
  then have names: "mset (map st_name (computeStandings s cs subs)) = mset (map sub_name subs)"
    by (simp add: multiset.map_comp comp_def scorePlayer_name)
  from zero pk al len m names show ?thesis by blast
qed

theorem absent_contestant_scores_zero_witness:
  "ghostPlayer \<in> set [ghostPlayer] \<and>
   picks ghostPlayer ! 0 \<notin> name ` set exRoster \<and>
   st_picks (scorePlayer exSeason (contestantMap exRoster) ghostPlayer) ! 0 =
     \<lparr>pk_contestant = None, pk_placement = 0, pk_bonus = 0, pk_total = 0, swappedOut = False\<rparr> \<and>
   alternates ghostPlayer = Some [''Nemo'', ''A''] \<and>
   [''Nemo'', ''A''] ! 0 \<notin> name ` set exRoster \<and>
   alt_contestant (st_alternates (scorePlayer exSeason (contestantMap exRoster) ghostPlayer) ! 0) =
     None \<and>
   alt_total (st_alternates (scorePlayer exSeason (contestantMap exRoster) ghostPlayer) ! 0) = 0 \<and>
   map swappedOut (st_picks (scorePlayer exSeason (contestantMap exRoster) ghostPlayer)) =
     [False, True] \<and>
   map st_name (computeStandings exSeason exRoster [ghostPlayer]) = [''p5'']"
proof -
  let ?st = "scorePlayer exSeason (contestantMap exRoster) ghostPlayer"
  have mem: "ghostPlayer \<in> set [ghostPlayer]" by simp
  have i0: "0 \<in> set [0..<length (picks ghostPlayer)]" by (simp add: ghostPlayer_def)
  have ab: "picks ghostPlayer ! 0 \<notin> name ` set exRoster"
    by (simp add: example_defs ghostPlayer_def)
  have alts: "alternates ghostPlayer = Some [''Nemo'', ''A'']" by (simp add: ghostPlayer_def)
  have a0: "0 \<in> set [0..<length [''Nemo'', ''A'']]" by simp
  have aab: "[''Nemo'', ''A''] ! 0 \<notin> name ` set exRoster"
    by (simp add: example_defs ghostPlayer_def)
  note th = absent_contestant_scores_zero[of exSeason "[ghostPlayer]" exRoster]
  note pk = th[THEN conjunct2, THEN conjunct2, THEN conjunct2, THEN conjunct1,
      THEN bspec, OF mem, THEN bspec, OF i0, THEN mp, OF ab]
  note al = th[THEN conjunct2, THEN conjunct2, THEN conjunct2, THEN conjunct2, THEN conjunct1,
      THEN bspec, OF mem, THEN spec, THEN mp, OF alts, THEN bspec, OF a0, THEN mp, OF aab]
  have so: "map swappedOut (st_picks ?st) = [False, True]"
    by (simp add: engine_defs example_defs ghostPlayer_def)
  have nm: "map st_name (computeStandings exSeason exRoster [ghostPlayer]) = [''p5'']"
    by (simp add: engine_defs example_defs ghostPlayer_def)
  from mem ab pk alts aab al[THEN conjunct1] al[THEN conjunct2, THEN conjunct2, THEN conjunct2]
    so nm
  show ?thesis by (intro conjI)
qed

subsection \<open>An alternate that is still in the game\<close>

text \<open>
  \<^bold>\<open>C10.\<close> The choice of the alternate looks at totals only, not at whether the alternate
  is eliminated. In the season under way, the player picked Y (eliminated, total 2) and
  named the alternate W, who is still in the game (placement null) and has 6 bonus points:
  W is marked \<open>swappedIn\<close>, Y is marked \<open>swappedOut\<close>, and the player's total is W's 6
  points.
\<close>

theorem active_alternate_swapped_in:
  "pickContestants (contestantMap midRoster) activeAltPlayer = [Some contY] \<and>
   altContestants (contestantMap midRoster) activeAltPlayer = [Some contW] \<and>
   eliminated (Some contY) \<and> placement contW = None \<and>
   totalPts midSeason (Some contY) = 2 \<and> bonusPts midSeason (Some contW) = 6 \<and>
   map swappedOut (st_picks (scorePlayer midSeason (contestantMap midRoster) activeAltPlayer)) =
     [True] \<and>
   map swappedIn (st_alternates (scorePlayer midSeason (contestantMap midRoster) activeAltPlayer)) =
     [True] \<and>
   st_total (scorePlayer midSeason (contestantMap midRoster) activeAltPlayer) = 6"
  by (simp add: engine_defs example_defs activeAltPlayer_def)

end
